theory Spec2Isabelle
  imports Main "HOL-Library.Sublist" "HOL-Library.Word"
begin

section \<open>JavaScript strings\<close>

text \<open>
  A JavaScript string is a sequence of UTF-16 code units: \<open>length\<close>, \<open>substring\<close>,
  \<open>includes\<close>, \<open>replace\<close> and a regular expression without the \<open>u\<close> flag all work on
  code units. A code unit is modelled as a natural number below 65536; \<open>utf16\<close> reads an
  ASCII literal as such a string.
\<close>

type_synonym jsstring = "nat list"

definition utf16 :: "string \<Rightarrow> jsstring" where
  "utf16 s = map of_char s"

text \<open>
  \<open>String.prototype.trim\<close> removes the code units of WhiteSpace and LineTerminator from
  both ends; a string is truthy when it is not empty.
\<close>

definition is_white_space :: "nat \<Rightarrow> bool" where
  "is_white_space c \<longleftrightarrow>
     c = 0x09 \<or> c = 0x0A \<or> c = 0x0B \<or> c = 0x0C \<or> c = 0x0D \<or> c = 0x20 \<or> c = 0xA0 \<or>
     c = 0x1680 \<or> (0x2000 \<le> c \<and> c \<le> 0x200A) \<or> c = 0x2028 \<or> c = 0x2029 \<or>
     c = 0x202F \<or> c = 0x205F \<or> c = 0x3000 \<or> c = 0xFEFF"

definition js_trim :: "jsstring \<Rightarrow> jsstring" where
  "js_trim s = rev (dropWhile is_white_space (rev (dropWhile is_white_space s)))"

definition truthy :: "jsstring \<Rightarrow> bool" where
  "truthy s \<longleftrightarrow> s \<noteq> []"

section \<open>TextChunker: \<open>splitTextForTTS\<close>\<close>

text \<open>
  The character class of the splitting expression \<open>/([...]+)/\<close>: the ideographic full stop
  U+3002, the fullwidth \<open>!\<close>, \<open>?\<close> and \<open>;\<close> (U+FF01, U+FF1F, U+FF1B), the ASCII
  \<open>. ? ! ;\<close> and the line feed.
\<close>

definition is_terminator :: "nat \<Rightarrow> bool" where
  "is_terminator c \<longleftrightarrow>
     c = 0x3002 \<or> c = 0xFF01 \<or> c = 0xFF1F \<or> c = 0xFF1B \<or>
     c = 0x2E \<or> c = 0x3F \<or> c = 0x21 \<or> c = 0x3B \<or> c = 0x0A"

text \<open>
  \<open>text.split(/([...]+)/)\<close>: the pieces between the maximal runs of terminators, with
  each run (the capture group) kept between them. The list always ends with a piece,
  which is empty when the text ends with a terminator; the empty text gives \<open>[""]\<close>.
\<close>

function split_terminators :: "jsstring \<Rightarrow> jsstring list" where
  "split_terminators s =
     (let piece = takeWhile (\<lambda>c. \<not> is_terminator c) s;
          rest = dropWhile (\<lambda>c. \<not> is_terminator c) s
      in if rest = [] then [piece]
         else piece # takeWhile is_terminator rest
                # split_terminators (dropWhile is_terminator rest))"
  by pat_completeness auto
termination
proof (relation "measure length", goal_cases)
  case 1
  show ?case by simp
next
  case (2 s piece rest)
  then have ne: "dropWhile (\<lambda>c. \<not> is_terminator c) s \<noteq> []"
    by simp
  then obtain c cs where r: "dropWhile (\<lambda>c. \<not> is_terminator c) s = c # cs"
    by (cases "dropWhile (\<lambda>c. \<not> is_terminator c) s") auto
  have "is_terminator c"
    using hd_dropWhile [OF ne] r by simp
  then have "length (dropWhile is_terminator (c # cs)) \<le> length cs"
    by (simp add: length_dropWhile_le)
  moreover have "length (c # cs) \<le> length s"
    using length_dropWhile_le [of "\<lambda>c. \<not> is_terminator c" s] r by simp
  ultimately show ?case
    using 2 r by simp
qed

declare split_terminators.simps [simp del]

text \<open>
  The first loop of \<open>splitTextForTTS\<close>: the buffer takes each raw part, and is pushed as
  a sentence and reset after a part that contains a terminator. The result is the list
  of sentences pushed and the buffer left at the end.
\<close>

fun collect_sentences :: "jsstring \<Rightarrow> jsstring list \<Rightarrow> jsstring list \<times> jsstring" where
  "collect_sentences buf [] = ([], buf)"
| "collect_sentences buf (p # ps) =
     (if list_ex is_terminator p
      then (let (ss, b) = collect_sentences [] ps in ((buf @ p) # ss, b))
      else collect_sentences (buf @ p) ps)"

definition sentences_of :: "jsstring \<Rightarrow> jsstring list" where
  "sentences_of text =
     (let (ss, b) = collect_sentences [] (split_terminators text)
      in if truthy (js_trim b) then ss @ [b] else ss)"

text \<open>
  The second loop: \<open>cur\<close> is \<open>currentSegment\<close>. A sentence that would take the segment
  over the limit flushes it (only when it is not blank) and starts the next one.
\<close>

fun accumulate_segments :: "int \<Rightarrow> jsstring \<Rightarrow> jsstring list \<Rightarrow> jsstring list" where
  "accumulate_segments limit cur [] = (if truthy (js_trim cur) then [cur] else [])"
| "accumulate_segments limit cur (sent # sents) =
     (if int (length cur) + int (length sent) > limit
      then (if truthy (js_trim cur)
            then cur # accumulate_segments limit sent sents
            else accumulate_segments limit sent sents)
      else accumulate_segments limit (cur @ sent) sents)"

definition splitTextForTTS :: "jsstring \<Rightarrow> int \<Rightarrow> jsstring list" where
  "splitTextForTTS text limit = accumulate_segments limit [] (sentences_of text)"

section \<open>\<open>String.prototype.replace\<close>\<close>

text \<open>
  \<open>index_of pat s\<close> is \<open>s.indexOf(pat)\<close>, the leftmost place where \<open>pat\<close> occurs, and
  \<open>s.includes(pat)\<close> asks whether there is one.
\<close>

fun index_of :: "jsstring \<Rightarrow> jsstring \<Rightarrow> nat option" where
  "index_of pat [] = (if pat = [] then Some 0 else None)"
| "index_of pat (c # cs) =
     (if prefix pat (c # cs) then Some 0 else map_option Suc (index_of pat cs))"

definition js_includes :: "jsstring \<Rightarrow> jsstring \<Rightarrow> bool" where
  "js_includes s pat \<longleftrightarrow> index_of pat s \<noteq> None"

definition is_digit :: "nat \<Rightarrow> bool" where
  "is_digit c \<longleftrightarrow> 0x30 \<le> c \<and> c \<le> 0x39"

definition digit_val :: "nat \<Rightarrow> nat" where
  "digit_val c = c - 0x30"

text \<open>
  The replacement argument of \<open>replace\<close> is a template, also when the pattern is a
  string: ECMAScript's GetSubstitution expands \<open>$$\<close> to a dollar sign (0x24), \<open>$&\<close> to
  the matched text, \<open>$`\<close> to the text before the match, \<open>$'\<close> to the text after it and
  \<open>$n\<close>, \<open>$nn\<close> to a capture group when the pattern has that many groups. Every other
  code unit, and a \<open>$\<close> before anything else (no named groups here), stands for itself.
\<close>

fun get_substitution ::
  "jsstring \<Rightarrow> jsstring \<Rightarrow> nat \<Rightarrow> jsstring list \<Rightarrow> jsstring \<Rightarrow> jsstring" where
  "get_substitution matched str pos caps [] = []"
| "get_substitution matched str pos caps [c] = [c]"
| "get_substitution matched str pos caps (c # d # rest) =
     (if c \<noteq> 0x24 then c # get_substitution matched str pos caps (d # rest)
      else if d = 0x24 then 0x24 # get_substitution matched str pos caps rest
      else if d = 0x60 then take pos str @ get_substitution matched str pos caps rest
      else if d = 0x26 then matched @ get_substitution matched str pos caps rest
      else if d = 0x27
        then drop (pos + length matched) str @ get_substitution matched str pos caps rest
      else if is_digit d then
        (case rest of
           [] \<Rightarrow>
             (if 1 \<le> digit_val d \<and> digit_val d \<le> length caps
              then caps ! (digit_val d - 1) else [c, d])
         | e # rest' \<Rightarrow>
             (if is_digit e \<and> 10 * digit_val d + digit_val e \<le> length caps
              then (if 1 \<le> 10 * digit_val d + digit_val e
                    then caps ! (10 * digit_val d + digit_val e - 1)
                    else [c, d, e])
                   @ get_substitution matched str pos caps rest'
              else (if 1 \<le> digit_val d \<and> digit_val d \<le> length caps
                    then caps ! (digit_val d - 1) else [c, d])
                   @ get_substitution matched str pos caps (e # rest')))
      else c # get_substitution matched str pos caps (d # rest))"

text \<open>
  \<open>s.replace(pat, template)\<close> with a string pattern: the leftmost occurrence only, no
  capture groups.
\<close>

definition replace_string :: "jsstring \<Rightarrow> jsstring \<Rightarrow> jsstring \<Rightarrow> jsstring" where
  "replace_string s pat template =
     (case index_of pat s of
        None \<Rightarrow> s
      | Some i \<Rightarrow>
          take i s @ get_substitution pat s i [] template @ drop (i + length pat) s)"

section \<open>SnippetAnchor: the expression \<open>/(snippet[^<]*<\/p>)/i\<close>\<close>

text \<open>
  With the flag \<open>i\<close> and without \<open>u\<close>, two code units match when Canonicalize maps them
  to the same unit: the upper case of the unit when that is a single unit, except that
  a unit from 128 on never maps below 128. The upper-case table of Unicode beyond ASCII
  belongs to the JavaScript runtime; it is the parameter \<open>upper\<close>, which gives the
  single-unit upper case of a unit from 128 on (the unit itself when it has none).
\<close>

definition canonicalize :: "(nat \<Rightarrow> nat) \<Rightarrow> nat \<Rightarrow> nat" where
  "canonicalize upper ch =
     (if ch < 128 then (if 0x61 \<le> ch \<and> ch \<le> 0x7A then ch - 0x20 else ch)
      else (let cu = upper ch in if cu < 128 then ch else cu))"

definition ci_eq :: "(nat \<Rightarrow> nat) \<Rightarrow> nat \<Rightarrow> nat \<Rightarrow> bool" where
  "ci_eq upper a b \<longleftrightarrow> canonicalize upper a = canonicalize upper b"

fun ci_prefix :: "(nat \<Rightarrow> nat) \<Rightarrow> jsstring \<Rightarrow> jsstring \<Rightarrow> bool" where
  "ci_prefix upper [] s = True"
| "ci_prefix upper (p # ps) [] = False"
| "ci_prefix upper (p # ps) (c # cs) = (ci_eq upper p c \<and> ci_prefix upper ps cs)"

text \<open>
  The snippet is escaped (\<open>replace(/[.*+?^${}()|[\]\\]/g, '\\$&')\<close> puts a backslash before
  every syntax character), so the expression reads it as a literal. A match at the start
  of \<open>s\<close> is the snippet, the run of units other than \<open><\<close> after it, and the closing tag:
  the run cannot end earlier, since the tag begins with \<open><\<close>. The result is the length
  of the match.
\<close>

definition paragraph_match_at :: "(nat \<Rightarrow> nat) \<Rightarrow> jsstring \<Rightarrow> jsstring \<Rightarrow> nat option" where
  "paragraph_match_at upper snippet s =
     (if ci_prefix upper snippet s
      then (let after = drop (length snippet) s;
                run = takeWhile (\<lambda>c. \<not> ci_eq upper 0x3C c) after;
                tail = drop (length run) after
            in if ci_prefix upper (utf16 ''</p>'') tail
               then Some (length snippet + length run + 4) else None)
      else None)"

text \<open>\<open>regex.exec\<close>: the leftmost index with a match, and the length of the match.\<close>

fun regex_search :: "(nat \<Rightarrow> nat) \<Rightarrow> jsstring \<Rightarrow> jsstring \<Rightarrow> (nat \<times> nat) option" where
  "regex_search upper snippet [] =
     map_option (\<lambda>n. (0, n)) (paragraph_match_at upper snippet [])"
| "regex_search upper snippet (c # cs) =
     (case paragraph_match_at upper snippet (c # cs) of
        Some n \<Rightarrow> Some (0, n)
      | None \<Rightarrow> map_option (\<lambda>(i, n). (Suc i, n)) (regex_search upper snippet cs))"

text \<open>
  \<open>s.replace(regex, template)\<close>: the expression has one capture group, around the whole
  match.
\<close>

definition replace_regex ::
  "(nat \<Rightarrow> nat) \<Rightarrow> jsstring \<Rightarrow> jsstring \<Rightarrow> jsstring \<Rightarrow> jsstring" where
  "replace_regex upper s snippet template =
     (case regex_search upper snippet s of
        None \<Rightarrow> s
      | Some (i, n) \<Rightarrow>
          take i s @ get_substitution (take n (drop i s)) s i [take n (drop i s)] template
            @ drop (i + n) s)"

section \<open>IllustrationPlanner: \<open>addIllustrationsToArticle\<close>\<close>

text \<open>The figure fragment built around the image payload (\<open>imgTag\<close>).\<close>

definition imgTag :: "jsstring \<Rightarrow> jsstring" where
  "imgTag base64Image =
     utf16 ''\<newline>             <figure style=\"margin: 20px 0; text-align: center;\">\<newline>               <img src=\"data:image/jpeg;base64,''
     @ base64Image
     @ utf16 ''\" style=\"display: block; width: 100%; border-radius: 8px; box-shadow: 0 4px 6px rgba(0,0,0,0.1); margin: 0 auto;\" alt=\"AI''
     @ [0x63D2, 0x56FE]
     @ utf16 ''\" />\<newline>             </figure>\<newline>           ''"

text \<open>
  The ladder for a plan that is not the cover. \<open>None\<close> means that no branch assigned
  \<open>updatedHtml\<close>; the template of the first step is \<open>$1\<close> followed by the fragment.
\<close>

definition anchor_insert ::
  "(nat \<Rightarrow> nat) \<Rightarrow> jsstring \<Rightarrow> jsstring \<Rightarrow> jsstring \<Rightarrow> jsstring option" where
  "anchor_insert upper updatedHtml contextSnippet tag =
     (let snippet = js_trim contextSnippet in
      if regex_search upper snippet updatedHtml \<noteq> None
      then Some (replace_regex upper updatedHtml snippet ([0x24, 0x31] @ tag))
      else if js_includes updatedHtml snippet
      then Some (replace_string updatedHtml snippet (snippet @ tag))
      else (let shortSnippet = take 15 snippet in
            if length shortSnippet > 10 \<and> js_includes updatedHtml shortSnippet
            then Some (replace_string updatedHtml shortSnippet (shortSnippet @ tag))
            else None))"

record plan =
  isCover :: bool
  contextSnippet :: "jsstring option"
  imagePrompt :: jsstring

text \<open>
  What the image collaborator answers to one call: it throws, or it returns the parts of
  the first candidate (none when there is no candidate), each part with the data of its
  \<open>inlineData\<close> when it has one. \<open>base64Image\<close> is the data of the first such part.
\<close>

datatype image_response = ImageFails | ImageReturns "jsstring option list"

definition first_inline_data :: "jsstring option list \<Rightarrow> jsstring option" where
  "first_inline_data parts =
     (case List.find (\<lambda>p. p \<noteq> None) parts of None \<Rightarrow> None | Some p \<Rightarrow> p)"

datatype skip_reason = UpstreamFailure | MalformedPayload | NoSnippet | AnchorNotFound

datatype insertion_result = Inserted jsstring | Skipped skip_reason

text \<open>
  The body of the loop for one plan, inside its own \<open>try\<close>: \<open>Inserted h\<close> when
  \<open>updatedHtml\<close> becomes \<open>h\<close>, \<open>Skipped\<close> when it stays as it is (the \<open>catch\<close> only
  logs).
\<close>

definition place_image ::
  "(nat \<Rightarrow> nat) \<Rightarrow> jsstring \<Rightarrow> plan \<Rightarrow> image_response \<Rightarrow> insertion_result" where
  "place_image upper updatedHtml p resp =
     (case resp of
        ImageFails \<Rightarrow> Skipped UpstreamFailure
      | ImageReturns parts \<Rightarrow>
          (case first_inline_data parts of
             None \<Rightarrow> Skipped MalformedPayload
           | Some b \<Rightarrow>
               if \<not> truthy b then Skipped MalformedPayload
               else if isCover p then Inserted (imgTag b @ updatedHtml)
               else (case contextSnippet p of
                       None \<Rightarrow> Skipped NoSnippet
                     | Some raw \<Rightarrow>
                         if \<not> truthy raw then Skipped NoSnippet
                         else (case anchor_insert upper updatedHtml raw (imgTag b) of
                                 None \<Rightarrow> Skipped AnchorNotFound
                               | Some h \<Rightarrow> Inserted h))))"

text \<open>The loop over the plans, each paired with the answer to its image call.\<close>

fun illustrate_plans ::
  "(nat \<Rightarrow> nat) \<Rightarrow> jsstring \<Rightarrow> (plan \<times> image_response) list \<Rightarrow> jsstring" where
  "illustrate_plans upper updatedHtml [] = updatedHtml"
| "illustrate_plans upper updatedHtml ((p, resp) # calls) =
     (case place_image upper updatedHtml p resp of
        Inserted h \<Rightarrow> illustrate_plans upper h calls
      | Skipped x \<Rightarrow> illustrate_plans upper updatedHtml calls)"

text \<open>
  The planning request: it throws (the call itself, or \<open>JSON.parse\<close>), or the parsed
  value is falsy (\<open>None\<close>), or it is a list of plans, which is empty also when the
  response has no text. \<open>imageGen i\<close> is the answer to the image call of plan \<open>i\<close>.
\<close>

datatype planning_response = PlanningFails | PlanningReturns "plan list option"

datatype error = UpstreamError | AnalysisIncomplete

definition image_calls ::
  "(nat \<Rightarrow> image_response) \<Rightarrow> plan list \<Rightarrow> (plan \<times> image_response) list" where
  "image_calls imageGen plans = zip plans (map imageGen [0..<length plans])"

definition addIllustrationsToArticle ::
  "(nat \<Rightarrow> nat) \<Rightarrow> (jsstring \<Rightarrow> int \<Rightarrow> planning_response) \<Rightarrow> (nat \<Rightarrow> image_response)
     \<Rightarrow> jsstring \<Rightarrow> int \<Rightarrow> error + jsstring" where
  "addIllustrationsToArticle upper planner imageGen articleHtml imageCount =
     (case planner articleHtml imageCount of
        PlanningFails \<Rightarrow> Inl UpstreamError
      | PlanningReturns None \<Rightarrow> Inl AnalysisIncomplete
      | PlanningReturns (Some plans) \<Rightarrow>
          if plans = [] then Inl AnalysisIncomplete
          else Inr (illustrate_plans upper articleHtml (image_calls imageGen plans)))"





section \<open>NarrationPipeline: \<open>generateSpeech\<close>\<close>

text \<open>
  \<open>pcmToWav\<close>: the 44 bytes of the header, then the samples. \<open>setUint16\<close> and
  \<open>setUint32\<close> store the value modulo \<open>2^16\<close> and \<open>2^32\<close>, low byte first.
\<close>

definition le16 :: "nat \<Rightarrow> 8 word list" where
  "le16 n = [of_nat (n mod 256), of_nat (n div 256 mod 256)]"

definition le32 :: "nat \<Rightarrow> 8 word list" where
  "le32 n = [of_nat (n mod 256), of_nat (n div 256 mod 256),
             of_nat (n div 65536 mod 256), of_nat (n div 16777216 mod 256)]"

definition writeString :: "string \<Rightarrow> 8 word list" where
  "writeString s = map of_char s"

definition pcmToWav :: "8 word list \<Rightarrow> nat \<Rightarrow> nat \<Rightarrow> nat \<Rightarrow> 8 word list" where
  "pcmToWav pcmData sampleRate numChannels bitsPerSample =
     writeString ''RIFF'' @ le32 (44 + length pcmData - 8) @ writeString ''WAVE''
     @ writeString ''fmt '' @ le32 16 @ le16 1 @ le16 numChannels @ le32 sampleRate
     @ le32 (sampleRate * numChannels * bitsPerSample div 8)
     @ le16 (numChannels * bitsPerSample div 8) @ le16 bitsPerSample
     @ writeString ''data'' @ le32 (length pcmData) @ pcmData"

record blob =
  blob_bytes :: "8 word list"
  blob_type :: string

text \<open>
  What the speech collaborator answers to the call for one segment: it throws, or it
  returns the \<open>inlineData.data\<close> of the first part of the first candidate, when there is
  one. \<open>atob\<close> is the browser's base64 decoder, a parameter: it gives the binary string,
  or throws (\<open>None\<close>). The whole body runs inside the segment's own \<open>try\<close>, whose
  \<open>catch\<close> returns \<open>null\<close>.
\<close>

datatype tts_response = TtsFails | TtsReturns "jsstring option"

definition synthesize_segment ::
  "(jsstring \<Rightarrow> jsstring option) \<Rightarrow> (nat \<Rightarrow> jsstring \<Rightarrow> tts_response)
     \<Rightarrow> nat \<Rightarrow> jsstring \<Rightarrow> blob option" where
  "synthesize_segment atob tts index segmentText =
     (if \<not> truthy (js_trim segmentText) then None
      else (case tts index segmentText of
              TtsFails \<Rightarrow> None
            | TtsReturns None \<Rightarrow> None
            | TtsReturns (Some base64Audio) \<Rightarrow>
                if \<not> truthy base64Audio then None
                else (case atob base64Audio of
                        None \<Rightarrow> None
                      | Some binaryString \<Rightarrow>
                          Some \<lparr>blob_bytes = pcmToWav (map of_nat binaryString) 24000 1 16,
                                blob_type = ''audio/wav''\<rparr>)))"

text \<open>
  \<open>Promise.all\<close>: the promise at index \<open>i\<close> writes its value into slot \<open>i\<close> of the result
  when it settles, whatever the order in which the promises settle; the result is there
  once every slot has been written. \<open>order\<close> lists the indices in the order of
  settling, and \<open>None\<close> means that the result never comes.
\<close>

definition promise_all :: "nat list \<Rightarrow> 'a list \<Rightarrow> 'a list option" where
  "promise_all order vals =
     those (foldl (\<lambda>slots i. if i < length vals then slots[i := Some (vals ! i)] else slots)
              (replicate (length vals) None) order)"

text \<open>
  \<open>results.forEach(res => { if (res) blobs.push(res) })\<close>. Nothing in the outer \<open>try\<close>
  of \<open>generateSpeech\<close> can throw (each segment catches its own errors), so its \<open>catch\<close>,
  which returns the empty list, is never reached; an error raised to the caller would be
  \<open>Inl\<close>.
\<close>

fun push_non_null :: "'a option list \<Rightarrow> 'a list" where
  "push_non_null [] = []"
| "push_non_null (None # rs) = push_non_null rs"
| "push_non_null (Some b # rs) = b # push_non_null rs"

datatype speech_error = SpeechError

definition generateSpeech ::
  "(jsstring \<Rightarrow> jsstring option) \<Rightarrow> (nat \<Rightarrow> jsstring \<Rightarrow> tts_response) \<Rightarrow> nat list
     \<Rightarrow> jsstring \<Rightarrow> (speech_error + blob list) option" where
  "generateSpeech atob tts order text =
     (let segments = splitTextForTTS text 300;
          segmentPromises =
            map (\<lambda>(index, segmentText). synthesize_segment atob tts index segmentText)
              (zip [0..<length segments] segments)
      in case promise_all order segmentPromises of
           None \<Rightarrow> None
         | Some results \<Rightarrow> Some (Inr (push_non_null results)))"

section \<open>WeChatFormatter: \<open>formatHtmlForWeChat\<close>\<close>

text \<open>
  The document is the tree the browser parses: text nodes, and elements with a tag name
  (in lower case), the declarations of the inline style (property, value, whether
  \<open>!important\<close>), the other attributes and the children.
\<close>

type_synonym css_decl = "string \<times> string \<times> bool"

datatype node =
  TextNode jsstring
| Element string "css_decl list" "(string \<times> string) list" "node list"

text \<open>
  \<open>element.style.boxSizing = v\<close> sets one property: the declaration is replaced where it
  stands, or added at the end. \<open>element.style.cssText = ...\<close> replaces all of them.
\<close>

fun set_property :: "string \<Rightarrow> string \<Rightarrow> css_decl list \<Rightarrow> css_decl list" where
  "set_property p v [] = [(p, v, False)]"
| "set_property p v ((q, w, imp) # ds) =
     (if q = p then (p, v, False) # ds else (q, w, imp) # set_property p v ds)"

definition wrapper_style :: "css_decl list" where
  "wrapper_style =
     [(''font-family'', ''-apple-system, BlinkMacSystemFont, 'Helvetica Neue', 'PingFang SC', 'Hiragino Sans GB', 'Microsoft YaHei UI', 'Microsoft YaHei', Arial, sans-serif'', False),
      (''font-size'', ''16px'', False), (''line-height'', ''1.75'', False),
      (''color'', ''#333333'', False), (''letter-spacing'', ''0.034em'', False),
      (''text-align'', ''justify'', False), (''word-break'', ''break-all'', False),
      (''box-sizing'', ''border-box'', False), (''margin'', ''0'', False),
      (''padding'', ''10px'', False)]"

definition h2_style :: "css_decl list" where
  "h2_style =
     [(''font-size'', ''17px'', False), (''font-weight'', ''bold'', False),
      (''margin-top'', ''40px'', False), (''margin-bottom'', ''24px'', False),
      (''color'', ''#333333'', False), (''text-align'', ''center'', True),
      (''line-height'', ''1.4'', False), (''box-sizing'', ''border-box'', False),
      (''display'', ''block'', False), (''width'', ''100%'', False),
      (''margin-left'', ''auto'', False), (''margin-right'', ''auto'', False)]"

definition h3_style :: "css_decl list" where
  "h3_style =
     [(''font-size'', ''17px'', False), (''font-weight'', ''bold'', False),
      (''margin-top'', ''30px'', False), (''margin-bottom'', ''20px'', False),
      (''color'', ''#333333'', False), (''text-align'', ''center'', True),
      (''line-height'', ''1.4'', False), (''box-sizing'', ''border-box'', False),
      (''display'', ''block'', False), (''width'', ''100%'', False),
      (''margin-left'', ''auto'', False), (''margin-right'', ''auto'', False)]"

definition p_style :: "css_decl list" where
  "p_style =
     [(''margin'', ''0 0 24px 0'', False), (''font-size'', ''16px'', False),
      (''line-height'', ''1.8'', False), (''color'', ''#333333'', False),
      (''text-align'', ''justify'', False), (''box-sizing'', ''border-box'', False)]"

definition img_style :: "css_decl list" where
  "img_style =
     [(''display'', ''block'', False), (''margin'', ''0 auto'', False),
      (''max-width'', ''100%'', True), (''height'', ''auto'', True),
      (''border-radius'', ''6px'', False), (''box-sizing'', ''border-box'', False),
      (''box-shadow'', ''0 4px 12px rgba(0,0,0,0.08)'', False),
      (''visibility'', ''visible'', True), (''opacity'', ''1'', True)]"

definition figure_style :: "css_decl list" where
  "figure_style =
     [(''margin'', ''20px 0'', False), (''padding'', ''0'', False),
      (''text-align'', ''center'', False), (''display'', ''block'', False),
      (''width'', ''100%'', False), (''box-sizing'', ''border-box'', False)]"

definition strong_style :: "css_decl list" where
  "strong_style = [(''font-weight'', ''700'', False), (''color'', ''#333333'', False)]"

definition em_style :: "css_decl list" where
  "em_style =
     [(''font-style'', ''italic'', False), (''color'', ''#ff5f00'', False),
      (''font-weight'', ''bold'', False), (''padding'', ''0 2px'', False)]"

definition u_style :: "css_decl list" where
  "u_style =
     [(''text-decoration'', ''underline'', False),
      (''text-decoration-color'', ''#ff5f00'', False),
      (''text-decoration-thickness'', ''1.5px'', False),
      (''text-underline-offset'', ''4px'', False)]"

definition list_style :: "css_decl list" where
  "list_style = [(''margin'', ''0 0 20px 20px'', False), (''padding'', ''0'', False)]"

definition li_style :: "css_decl list" where
  "li_style = [(''margin-bottom'', ''8px'', False)]"

text \<open>The \<open>if\<close> chain of \<open>processNode\<close>: the text assigned to \<open>cssText\<close> for a tag.\<close>

definition tag_style :: "string \<Rightarrow> css_decl list option" where
  "tag_style tagName =
     (if tagName = ''h2'' then Some h2_style
      else if tagName = ''h3'' then Some h3_style
      else if tagName = ''p'' then Some p_style
      else if tagName = ''img'' then Some img_style
      else if tagName = ''strong'' \<or> tagName = ''b'' then Some strong_style
      else if tagName = ''em'' then Some em_style
      else if tagName = ''u'' then Some u_style
      else if tagName = ''ul'' \<or> tagName = ''ol'' then Some list_style
      else if tagName = ''li'' then Some li_style
      else None)"

text \<open>
  \<open>processNode\<close> on the element itself: first \<open>boxSizing\<close>, then the assignment to
  \<open>cssText\<close> when the tag has a rule; an image also loses \<open>width\<close> and \<open>height\<close>.
\<close>

definition processNode ::
  "string \<Rightarrow> css_decl list \<Rightarrow> (string \<times> string) list
     \<Rightarrow> css_decl list \<times> (string \<times> string) list" where
  "processNode tagName style attrs =
     (let style1 = set_property ''box-sizing'' ''border-box'' style in
      case tag_style tagName of
        None \<Rightarrow> (style1, attrs)
      | Some cssText \<Rightarrow>
          (cssText,
           if tagName = ''img''
           then filter (\<lambda>(k, v). k \<noteq> ''width'' \<and> k \<noteq> ''height'') attrs
           else attrs))"

fun is_img :: "node \<Rightarrow> bool" where
  "is_img (TextNode t) = False"
| "is_img (Element tagName style attrs kids) = (tagName = ''img'')"

text \<open>
  \<open>walk\<close>: the element, then its element children in order. An image whose parent is a
  \<open>figure\<close> assigns the figure's \<open>cssText\<close>, after the figure's own \<open>processNode\<close>.
\<close>

fun walk :: "node \<Rightarrow> node" where
  "walk (TextNode t) = TextNode t"
| "walk (Element tagName style attrs kids) =
     (let (style1, attrs1) = processNode tagName style attrs;
          style2 = (if tagName = ''figure'' \<and> list_ex is_img kids
                    then figure_style else style1)
      in Element tagName style2 attrs1 (map walk kids))"

text \<open>
  The tree part of \<open>formatHtmlForWeChat\<close>, from the children of the parsed body to the
  children of the body after the walk: the new \<open>section\<close> takes all of them.
\<close>

definition wrapper_attrs :: "(string \<times> string) list" where
  "wrapper_attrs = [(''data-tool'', ''AIWriter'')]"

definition format_body :: "node list \<Rightarrow> node list" where
  "format_body body = [walk (Element ''section'' wrapper_style wrapper_attrs body)]"

text \<open>\<open>s.replace(/pat/g, rep)\<close> for a literal \<open>pat\<close> and a \<open>rep\<close> without \<open>$\<close>.\<close>

function replace_all :: "jsstring \<Rightarrow> jsstring \<Rightarrow> jsstring \<Rightarrow> jsstring" where
  "replace_all pat rep [] = []"
| "replace_all pat rep (c # cs) =
     (if pat \<noteq> [] \<and> prefix pat (c # cs)
      then rep @ replace_all pat rep (drop (length pat) (c # cs))
      else c # replace_all pat rep cs)"
  by pat_completeness auto
termination
  by (relation "measure (\<lambda>(pat, rep, s). length s)") (auto simp: neq_Nil_conv)

text \<open>
  The whole function. The browser's HTML parser (\<open>DOMParser\<close>, giving the children of
  the body) and serializer (\<open>innerHTML\<close>) are the parameters \<open>parse\<close> and \<open>serialize\<close>.
\<close>

definition formatHtmlForWeChat ::
  "(jsstring \<Rightarrow> node list) \<Rightarrow> (node list \<Rightarrow> jsstring) \<Rightarrow> jsstring \<Rightarrow> jsstring" where
  "formatHtmlForWeChat parse serialize html =
     replace_all (utf16 ''</figure>'') (utf16 ''</p>'')
       (replace_all (utf16 ''<figure'') (utf16 ''<p'')
          (serialize (format_body (parse html))))"

text \<open>
  What the replacement of \<open><figure\<close> and \<open></figure>\<close> in the markup means for the tree that
  is read back from it: every \<open>figure\<close> element has become a \<open>p\<close> element.
\<close>

fun figure_to_p :: "node \<Rightarrow> node" where
  "figure_to_p (TextNode t) = TextNode t"
| "figure_to_p (Element tagName style attrs kids) =
     Element (if tagName = ''figure'' then ''p'' else tagName) style attrs (map figure_to_p kids)"

text \<open>The number of nodes of a tree, to tell documents of different depth apart.\<close>

fun node_count :: "node \<Rightarrow> nat" where
  "node_count (TextNode t) = 1"
| "node_count (Element tagName style attrs kids) = Suc (sum_list (map node_count kids))"

section \<open>Properties of the TextChunker\<close>

lemma all_dropWhile_iff: "(\<forall>x\<in>set (dropWhile P s). P x) \<longleftrightarrow> (\<forall>x\<in>set s. P x)"
  by (induction s) auto

lemma truthy_trim_iff: "truthy (js_trim s) \<longleftrightarrow> \<not> list_all is_white_space s"
  by (simp add: truthy_def js_trim_def list_all_iff all_dropWhile_iff)

lemma concat_split_terminators: "concat (split_terminators s) = s"
proof (induction s rule: split_terminators.induct)
  case (1 s)
  let ?rest = "dropWhile (\<lambda>c. \<not> is_terminator c) s"
  show ?case
  proof (cases "?rest = []")
    case True
    then have "takeWhile (\<lambda>c. \<not> is_terminator c) s = s"
      by (metis append_Nil2 takeWhile_dropWhile_id)
    with True show ?thesis
      by (subst split_terminators.simps) (simp add: Let_def)
  next
    case False
    have "concat (split_terminators (dropWhile is_terminator ?rest)) = dropWhile is_terminator ?rest"
      using 1 False by simp
    with False show ?thesis
      by (subst split_terminators.simps) (simp add: Let_def)
  qed
qed

lemma concat_collect_sentences:
  "concat (fst (collect_sentences buf ps)) @ snd (collect_sentences buf ps) = buf @ concat ps"
  by (induction ps arbitrary: buf) (auto simp: case_prod_beta Let_def)

lemma sentences_of_text:
  "\<exists>tail. concat (sentences_of text) @ tail = text \<and> list_all is_white_space tail"
proof -
  obtain ss b where c: "collect_sentences [] (split_terminators text) = (ss, b)"
    by (cases "collect_sentences [] (split_terminators text)")
  have eq: "concat ss @ b = text"
    using concat_collect_sentences [of "[]" "split_terminators text"] c
    by (simp add: concat_split_terminators)
  show ?thesis
  proof (cases "truthy (js_trim b)")
    case True
    then have "concat (sentences_of text) @ [] = text"
      using c eq by (simp add: sentences_of_def)
    then show ?thesis by (intro exI [of _ "[]"]) simp
  next
    case False
    then have "concat (sentences_of text) @ b = text" "list_all is_white_space b"
      using c eq by (simp_all add: sentences_of_def truthy_trim_iff)
    then show ?thesis by blast
  qed
qed

lemma accumulate_spans:
  "\<exists>spans. concat spans = cur @ concat sents \<and>
     accumulate_segments limit cur sents = filter (\<lambda>s. \<not> list_all is_white_space s) spans"
proof (induction sents arbitrary: cur)
  case Nil
  show ?case
    by (rule exI [of _ "[cur]"]) (simp add: truthy_trim_iff)
next
  case (Cons sent sents)
  show ?case
  proof (cases "int (length cur) + int (length sent) > limit")
    case True
    from Cons [of sent] obtain spans where
      s: "concat spans = sent @ concat sents"
         "accumulate_segments limit sent sents = filter (\<lambda>s. \<not> list_all is_white_space s) spans"
      by blast
    show ?thesis
      using True s by (intro exI [of _ "cur # spans"]) (simp add: truthy_trim_iff)
  next
    case False
    from Cons [of "cur @ sent"] obtain spans where
      s: "concat spans = (cur @ sent) @ concat sents"
         "accumulate_segments limit (cur @ sent) sents = filter (\<lambda>s. \<not> list_all is_white_space s) spans"
      by blast
    show ?thesis
      using False s by (intro exI [of _ spans]) simp
  qed
qed

lemma accumulate_nonblank:
  "\<forall>c\<in>set (accumulate_segments limit cur sents). truthy (js_trim c)"
  by (induction sents arbitrary: cur) auto


lemma accumulate_groups:
  assumes "2 \<le> length g \<longrightarrow> int (length (concat g)) \<le> limit"
  shows "\<exists>groups. concat groups = g @ sents \<and>
     accumulate_segments limit (concat g) sents =
       map concat (filter (\<lambda>g. \<not> list_all is_white_space (concat g)) groups) \<and>
     (\<forall>g\<in>set groups. 2 \<le> length g \<longrightarrow> int (length (concat g)) \<le> limit)"
  using assms
proof (induction sents arbitrary: g)
  case Nil
  then show ?case
    by (intro exI [of _ "[g]"]) (simp add: truthy_trim_iff)
next
  case (Cons sent sents)
  show ?case
  proof (cases "int (length (concat g)) + int (length sent) > limit")
    case True
    have "2 \<le> length [sent] \<longrightarrow> int (length (concat [sent])) \<le> limit" by simp
    from Cons.IH [OF this] obtain groups where
      s: "concat groups = [sent] @ sents"
         "accumulate_segments limit (concat [sent]) sents =
            map concat (filter (\<lambda>g. \<not> list_all is_white_space (concat g)) groups)"
         "\<forall>g\<in>set groups. 2 \<le> length g \<longrightarrow> int (length (concat g)) \<le> limit"
      by blast
    show ?thesis
      using True s Cons.prems by (intro exI [of _ "g # groups"]) (simp add: truthy_trim_iff)
  next
    case False
    then have "2 \<le> length (g @ [sent]) \<longrightarrow> int (length (concat (g @ [sent]))) \<le> limit"
      by simp
    from Cons.IH [OF this] obtain groups where
      s: "concat groups = (g @ [sent]) @ sents"
         "accumulate_segments limit (concat (g @ [sent])) sents =
            map concat (filter (\<lambda>g. \<not> list_all is_white_space (concat g)) groups)"
         "\<forall>g\<in>set groups. 2 \<le> length g \<longrightarrow> int (length (concat g)) \<le> limit"
      by blast
    show ?thesis
      using False s by (intro exI [of _ groups]) simp
  qed
qed

text \<open>Equations that evaluate the chunker on a given text.\<close>

lemma split_terminators_last:
  "dropWhile (\<lambda>c. \<not> is_terminator c) s = [] \<Longrightarrow> split_terminators s = [s]"
  by (subst split_terminators.simps) (simp add: Let_def takeWhile_eq_all_conv)

lemma split_terminators_more:
  "dropWhile (\<lambda>c. \<not> is_terminator c) s \<noteq> [] \<Longrightarrow>
   split_terminators s =
     takeWhile (\<lambda>c. \<not> is_terminator c) s
       # takeWhile is_terminator (dropWhile (\<lambda>c. \<not> is_terminator c) s)
       # split_terminators (dropWhile is_terminator (dropWhile (\<lambda>c. \<not> is_terminator c) s))"
  by (subst split_terminators.simps) (simp add: Let_def)

lemma takeWhile_replicate_append:
  "P a \<Longrightarrow> takeWhile P (replicate n a @ ys) = replicate n a @ takeWhile P ys"
  by (induction n) auto

lemma dropWhile_replicate_append:
  "P a \<Longrightarrow> dropWhile P (replicate n a @ ys) = dropWhile P ys"
  by (induction n) auto

lemmas chunk_eval = split_terminators_last split_terminators_more utf16_def is_terminator_def
  is_white_space_def sentences_of_def splitTextForTTS_def truthy_trim_iff
  takeWhile_replicate_append dropWhile_replicate_append list_ex_iff list_all_iff

text \<open>
  Claim C3. For every text and limit, the chunks returned by \<open>splitTextForTTS\<close> are, in
  order, what is left of the text once some spans that are pure white space have been
  taken out: the text is a concatenation of spans, and the chunks are exactly the spans
  that are not pure white space. Every chunk is non-empty after trimming.
\<close>

theorem splitTextForTTS_reconstructs:
  "(\<exists>spans. concat spans = text \<and>
      splitTextForTTS text limit = filter (\<lambda>s. \<not> list_all is_white_space s) spans) \<and>
   (\<forall>c\<in>set (splitTextForTTS text limit). js_trim c \<noteq> [])"
proof
  obtain tail where t: "concat (sentences_of text) @ tail = text" "list_all is_white_space tail"
    using sentences_of_text by blast
  obtain spans where s: "concat spans = [] @ concat (sentences_of text)"
    "accumulate_segments limit [] (sentences_of text) = filter (\<lambda>s. \<not> list_all is_white_space s) spans"
    using accumulate_spans by blast
  show "\<exists>spans. concat spans = text \<and>
      splitTextForTTS text limit = filter (\<lambda>s. \<not> list_all is_white_space s) spans"
    using t s by (intro exI [of _ "spans @ [tail]"]) (simp add: splitTextForTTS_def)
  show "\<forall>c\<in>set (splitTextForTTS text limit). js_trim c \<noteq> []"
    using accumulate_nonblank [of limit "[]" "sentences_of text"]
    by (simp add: splitTextForTTS_def truthy_def)
qed


theorem splitTextForTTS_reconstructs_witness:
  "splitTextForTTS (utf16 ''  \<newline>Hi there. Yo! ok   '') 10
     = [utf16 ''Hi there.'', utf16 '' Yo! ok   ''] \<and>
   (\<exists>spans. concat spans = utf16 ''  \<newline>Hi there. Yo! ok   '' \<and>
      splitTextForTTS (utf16 ''  \<newline>Hi there. Yo! ok   '') 10
        = filter (\<lambda>s. \<not> list_all is_white_space s) spans) \<and>
   js_trim (utf16 ''Hi there.'') \<noteq> [] \<and> js_trim (utf16 '' Yo! ok   '') \<noteq> []"
proof -
  have e: "splitTextForTTS (utf16 ''  \<newline>Hi there. Yo! ok   '') 10
     = [utf16 ''Hi there.'', utf16 '' Yo! ok   '']"
    by (simp add: chunk_eval)
  have t: "(\<exists>spans. concat spans = utf16 ''  \<newline>Hi there. Yo! ok   '' \<and>
      splitTextForTTS (utf16 ''  \<newline>Hi there. Yo! ok   '') 10
        = filter (\<lambda>s. \<not> list_all is_white_space s) spans) \<and>
    (\<forall>c\<in>set (splitTextForTTS (utf16 ''  \<newline>Hi there. Yo! ok   '') 10). js_trim c \<noteq> [])"
    by (rule splitTextForTTS_reconstructs)
  then have "\<forall>c\<in>set [utf16 ''Hi there.'', utf16 '' Yo! ok   '']. js_trim c \<noteq> []"
    unfolding e by (rule conjunct2)
  then have "js_trim (utf16 ''Hi there.'') \<noteq> []" "js_trim (utf16 '' Yo! ok   '') \<noteq> []"
    by (metis list.set_intros(1), metis list.set_intros)
  with e t show ?thesis
    by blast
qed

text \<open>
  Claim C4. With the limit 300, the chunks are the concatenations of consecutive groups
  of sentences (the groups that are pure white space are dropped), and a group of two or
  more sentences has at most 300 code units. A sentence of more than 300 code units that
  is not blank is returned whole, as a chunk of its own.
\<close>

theorem splitTextForTTS_limit:
  "(\<exists>groups. concat groups = sentences_of text \<and>
      splitTextForTTS text 300 =
        map concat (filter (\<lambda>g. \<not> list_all is_white_space (concat g)) groups) \<and>
      (\<forall>g\<in>set groups. 2 \<le> length g \<longrightarrow> length (concat g) \<le> 300)) \<and>
   (\<forall>s\<in>set (sentences_of text).
      300 < length s \<and> \<not> list_all is_white_space s \<longrightarrow> s \<in> set (splitTextForTTS text 300))"
proof -
  have "2 \<le> length ([] :: jsstring list) \<longrightarrow> int (length (concat ([] :: jsstring list))) \<le> 300"
    by simp
  from accumulate_groups [OF this, of "sentences_of text"] obtain groups where
    g: "concat groups = sentences_of text"
       "splitTextForTTS text 300 =
          map concat (filter (\<lambda>g. \<not> list_all is_white_space (concat g)) groups)"
       "\<forall>g\<in>set groups. 2 \<le> length g \<longrightarrow> length (concat g) \<le> 300"
    by (auto simp: splitTextForTTS_def)
  have "s \<in> set (splitTextForTTS text 300)"
    if s: "s \<in> set (sentences_of text)" "300 < length s" "\<not> list_all is_white_space s" for s
  proof -
    from s(1) g(1) obtain grp where grp: "grp \<in> set groups" "s \<in> set grp"
      by (metis UN_E set_concat)
    have "length s \<le> length (concat grp)"
      using grp(2) by (induction grp) auto
    with s(2) g(3) grp(1) have "\<not> 2 \<le> length grp"
      by fastforce
    with grp(2) have "grp = [s]"
      by (cases grp) (auto simp: Suc_le_eq)
    with grp(1) s(3) show ?thesis
      using g(2) by (force simp: image_iff)
  qed
  with g show ?thesis
    by blast
qed



theorem splitTextForTTS_limit_witness:
  "sentences_of (replicate 301 0x61 @ utf16 ''. Hi. Yo.'')
     = [replicate 301 0x61 @ utf16 ''.'', utf16 '' Hi.'', utf16 '' Yo.''] \<and>
   splitTextForTTS (replicate 301 0x61 @ utf16 ''. Hi. Yo.'') 300
     = [replicate 301 0x61 @ utf16 ''.'', utf16 '' Hi. Yo.''] \<and>
   (\<exists>groups. concat groups = sentences_of (replicate 301 0x61 @ utf16 ''. Hi. Yo.'') \<and>
      splitTextForTTS (replicate 301 0x61 @ utf16 ''. Hi. Yo.'') 300 =
        map concat (filter (\<lambda>g. \<not> list_all is_white_space (concat g)) groups) \<and>
      (\<forall>g\<in>set groups. 2 \<le> length g \<longrightarrow> length (concat g) \<le> 300)) \<and>
   replicate 301 0x61 @ utf16 ''.''
     \<in> set (splitTextForTTS (replicate 301 0x61 @ utf16 ''. Hi. Yo.'') 300)"
proof -
  have a: "sentences_of (replicate 301 0x61 @ utf16 ''. Hi. Yo.'')
     = [replicate 301 0x61 @ utf16 ''.'', utf16 '' Hi.'', utf16 '' Yo.'']"
    by (simp add: chunk_eval)
  have b: "splitTextForTTS (replicate 301 0x61 @ utf16 ''. Hi. Yo.'') 300
     = [replicate 301 0x61 @ utf16 ''.'', utf16 '' Hi. Yo.'']"
    by (simp add: chunk_eval)
  have c: "300 < length (replicate 301 (0x61::nat) @ utf16 ''.'')"
    by simp
  have d: "\<not> list_all is_white_space (replicate 301 0x61 @ utf16 ''.'')"
    by (simp add: is_white_space_def list_all_iff)
  show ?thesis
    using splitTextForTTS_limit [of "replicate 301 0x61 @ utf16 ''. Hi. Yo.''"] a b c d
    by (metis list.set_intros(1))
qed



section \<open>Properties of the SnippetAnchor\<close>

subsection \<open>Matching without regard to case\<close>

lemma canonicalize_ascii:
  "canonicalize upper c < 128 \<longleftrightarrow> c < 128"
  by (auto simp: canonicalize_def Let_def)

lemma ci_eq_lt [simp]: "ci_eq upper 0x3C c \<longleftrightarrow> c = 0x3C"
  by (auto simp: ci_eq_def canonicalize_def Let_def split: if_splits)

lemma ci_eq_slash [simp]: "ci_eq upper 0x2F c \<longleftrightarrow> c = 0x2F"
  by (auto simp: ci_eq_def canonicalize_def Let_def split: if_splits)

lemma ci_eq_gt [simp]: "ci_eq upper 0x3E c \<longleftrightarrow> c = 0x3E"
  by (auto simp: ci_eq_def canonicalize_def Let_def split: if_splits)

lemma ci_eq_p [simp]: "ci_eq upper 0x70 c \<longleftrightarrow> c = 0x70 \<or> c = 0x50"
  by (auto simp: ci_eq_def canonicalize_def Let_def split: if_splits)

lemma ci_prefix_refl: "ci_prefix upper xs (xs @ ys)"
  by (induction xs) (simp_all add: ci_eq_def)

lemma ci_prefix_length: "ci_prefix upper p s \<Longrightarrow> length p \<le> length s"
  by (induction upper p s rule: ci_prefix.induct) simp_all

lemma ci_prefix_Cons:
  "ci_prefix upper (p # ps) s \<longleftrightarrow> (\<exists>c cs. s = c # cs \<and> ci_eq upper p c \<and> ci_prefix upper ps cs)"
  by (cases s) auto

lemma ci_prefix_closing_tag:
  "ci_prefix upper (utf16 ''</p>'') t \<longleftrightarrow>
     (\<exists>rest. t = utf16 ''</p>'' @ rest \<or> t = utf16 ''</P>'' @ rest)"
  by (auto simp: utf16_def ci_prefix_Cons)

lemma takeWhile_not_lt:
  "0x3C \<notin> set trail \<Longrightarrow>
   takeWhile (\<lambda>c. \<not> ci_eq upper 0x3C c) (trail @ 0x3C # rest) = trail"
  by (induction trail) auto

lemma paragraph_match_intro:
  assumes "s = sn @ trail @ utf16 ''</p>'' @ post" and "0x3C \<notin> set trail"
  shows "paragraph_match_at upper sn s = Some (length sn + length trail + 4)"
proof -
  have "takeWhile (\<lambda>c. \<not> ci_eq upper 0x3C c) (trail @ utf16 ''</p>'' @ post) = trail"
    using takeWhile_not_lt [OF assms(2), of upper "utf16 ''/p>'' @ post"]
    by (simp add: utf16_def)
  moreover have "ci_prefix upper (utf16 ''</p>'') (utf16 ''</p>'' @ post)"
    by (rule ci_prefix_refl)
  ultimately show ?thesis
    using assms(1) by (simp add: paragraph_match_at_def Let_def ci_prefix_refl)
qed

lemma paragraph_match_elim:
  assumes "paragraph_match_at upper sn s = Some n"
  shows "\<exists>run tg rest. s = take (length sn) s @ run @ tg @ rest \<and> length sn \<le> length s \<and>
           ci_prefix upper sn s \<and> 0x3C \<notin> set run \<and>
           (tg = utf16 ''</p>'' \<or> tg = utf16 ''</P>'') \<and> n = length sn + length run + 4"
proof -
  let ?after = "drop (length sn) s"
  let ?run = "takeWhile (\<lambda>c. \<not> ci_eq upper 0x3C c) ?after"
  from assms have p: "ci_prefix upper sn s"
    and t: "ci_prefix upper (utf16 ''</p>'') (drop (length ?run) ?after)"
    and n: "n = length sn + length ?run + 4"
    by (auto simp: paragraph_match_at_def Let_def split: if_splits)
  from t obtain tg rest where tg: "drop (length ?run) ?after = tg @ rest"
    "tg = utf16 ''</p>'' \<or> tg = utf16 ''</P>''"
    unfolding ci_prefix_closing_tag by blast
  have "?after = ?run @ drop (length ?run) ?after"
    by (metis append_take_drop_id takeWhile_eq_take)
  then have "s = take (length sn) s @ ?run @ tg @ rest"
    using tg(1) by (metis append_take_drop_id)
  moreover have "0x3C \<notin> set ?run"
    by (auto dest: set_takeWhileD)
  ultimately show ?thesis
    using p n tg(2) ci_prefix_length [OF p] by blast
qed

lemma closing_tag_length: "tg = utf16 ''</p>'' \<or> tg = utf16 ''</P>'' \<Longrightarrow> length tg = 4"
  by (auto simp: utf16_def)

lemma match_ends_with_closing_tag:
  assumes "paragraph_match_at upper sn (drop i html) = Some n" and "i \<le> length html"
  shows "4 \<le> n \<and> i + n \<le> length html \<and>
         (take 4 (drop (i + n - 4) html) = utf16 ''</p>'' \<or>
          take 4 (drop (i + n - 4) html) = utf16 ''</P>'')"
proof -
  from paragraph_match_elim [OF assms(1)] obtain run tg rest where
    d: "drop i html = take (length sn) (drop i html) @ run @ tg @ rest"
    and l: "length sn \<le> length (drop i html)"
    and tg: "tg = utf16 ''</p>'' \<or> tg = utf16 ''</P>''"
    and n: "n = length sn + length run + 4"
    by blast
  let ?h = "take (length sn) (drop i html) @ run"
  have lh: "length ?h = n - 4" using l n by simp
  have t4: "length tg = 4" using tg by (rule closing_tag_length)
  have "length (drop i html) = length ?h + length tg + length rest"
    using d by (metis append.assoc length_append)
  then have le: "i + n \<le> length html"
    using lh t4 n assms(2) by simp
  have "drop (n - 4) (drop i html) = tg @ rest"
    using d lh by (metis append.assoc append_eq_conv_conj)
  then have "drop (i + n - 4) html = tg @ rest"
    using n by (simp add: add.commute)
  then have "take 4 (drop (i + n - 4) html) = tg"
    using t4 by simp
  with tg le n show ?thesis by auto
qed


subsection \<open>The leftmost match and the leftmost occurrence\<close>

lemma regex_search_Some:
  "regex_search upper sn s = Some (i, n) \<Longrightarrow>
   i \<le> length s \<and> paragraph_match_at upper sn (drop i s) = Some n \<and>
   (\<forall>j<i. paragraph_match_at upper sn (drop j s) = None)"
proof (induction s arbitrary: i)
  case Nil
  then show ?case by auto
next
  case (Cons c cs)
  show ?case
  proof (cases "paragraph_match_at upper sn (c # cs)")
    case (Some m)
    with Cons.prems show ?thesis by simp
  next
    case None
    with Cons.prems obtain i' where i': "regex_search upper sn cs = Some (i', n)" "i = Suc i'"
      by auto
    from Cons.IH [OF i'(1)] None i'(2) show ?thesis
      by (auto simp: less_Suc_eq_0_disj)
  qed
qed

lemma regex_search_first:
  "j \<le> length s \<Longrightarrow> paragraph_match_at upper sn (drop j s) = Some n \<Longrightarrow>
   \<forall>j'<j. paragraph_match_at upper sn (drop j' s) = None \<Longrightarrow>
   regex_search upper sn s = Some (j, n)"
proof (induction s arbitrary: j)
  case Nil
  then show ?case by simp
next
  case (Cons c cs)
  show ?case
  proof (cases j)
    case 0
    with Cons.prems show ?thesis by simp
  next
    case (Suc j0)
    with Cons.prems have none: "paragraph_match_at upper sn (c # cs) = None"
      by (metis drop0 zero_less_Suc)
    have "regex_search upper sn cs = Some (j0, n)"
    proof (rule Cons.IH)
      show "j0 \<le> length cs" using Cons.prems(1) Suc by simp
      show "paragraph_match_at upper sn (drop j0 cs) = Some n"
        using Cons.prems(2) Suc by simp
      show "\<forall>j'<j0. paragraph_match_at upper sn (drop j' cs) = None"
        using Cons.prems(3) Suc by (metis Suc_less_eq drop_Suc_Cons)
    qed
    with none Suc show ?thesis by simp
  qed
qed

lemma regex_search_exists:
  "j \<le> length s \<Longrightarrow> paragraph_match_at upper sn (drop j s) = Some n \<Longrightarrow>
   \<exists>i m. i \<le> j \<and> regex_search upper sn s = Some (i, m)"
proof (induction s arbitrary: j)
  case Nil
  then show ?case by simp
next
  case (Cons c cs)
  show ?case
  proof (cases "paragraph_match_at upper sn (c # cs)")
    case (Some m)
    then show ?thesis by simp
  next
    case None
    with Cons.prems obtain j0 where j: "j = Suc j0"
      by (cases j) auto
    with Cons.prems have "j0 \<le> length cs" "paragraph_match_at upper sn (drop j0 cs) = Some n"
      by simp_all
    from Cons.IH [OF this] obtain i m where "i \<le> j0" "regex_search upper sn cs = Some (i, m)"
      by blast
    with None j show ?thesis by simp
  qed
qed


lemma index_of_None:
  "index_of pat s = None \<Longrightarrow> j \<le> length s \<Longrightarrow> \<not> prefix pat (drop j s)"
proof (induction s arbitrary: j)
  case Nil
  then show ?case by (auto split: if_splits)
next
  case (Cons c cs)
  then show ?case
    by (cases j) (auto split: if_splits)
qed

lemma index_of_first:
  "s = pre @ pat @ post \<Longrightarrow> \<forall>j<length pre. \<not> prefix pat (drop j s) \<Longrightarrow>
   index_of pat s = Some (length pre)"
proof (induction pre arbitrary: s)
  case Nil
  then have "prefix pat s" by simp
  then show ?case by (cases s) auto
next
  case (Cons c pre)
  from Cons.prems(2) have "\<not> prefix pat (drop 0 s)" by blast
  then have np: "\<not> prefix pat (c # pre @ pat @ post)"
    using Cons.prems(1) by simp
  have "index_of pat (pre @ pat @ post) = Some (length pre)"
  proof (rule Cons.IH [OF refl])
    show "\<forall>j<length pre. \<not> prefix pat (drop j (pre @ pat @ post))"
      using Cons.prems by (metis Suc_less_eq drop_Suc_Cons length_Cons append_Cons)
  qed
  with np Cons.prems(1) show ?case by simp
qed


subsection \<open>Replacement templates\<close>

lemma get_substitution_plain:
  "0x24 \<notin> set t \<Longrightarrow> get_substitution matched str pos caps t = t"
  by (induction matched str pos caps t rule: get_substitution.induct) auto

lemma get_substitution_group:
  assumes "0x24 \<notin> set t" and "t = [] \<or> \<not> is_digit (hd t)"
  shows "get_substitution matched str pos [matched] ([0x24, 0x31] @ t) = matched @ t"
proof (cases t)
  case Nil
  then show ?thesis by (simp add: is_digit_def digit_val_def)
next
  case (Cons e rest)
  with assms have "\<not> is_digit e" by simp
  moreover have "get_substitution matched str pos [matched] (e # rest) = e # rest"
    using assms(1) Cons get_substitution_plain by blast
  ultimately show ?thesis
    using Cons by (simp add: is_digit_def digit_val_def)
qed

lemma get_substitution_append_plain:
  "0x24 \<notin> set t \<Longrightarrow> xs = [] \<or> last xs \<noteq> 0x24 \<Longrightarrow>
   get_substitution matched str pos [] (xs @ t) = get_substitution matched str pos [] xs @ t"
proof (induction matched str pos "[] :: jsstring list" xs rule: get_substitution.induct)
  case (1 matched str pos)
  then show ?case by (simp add: get_substitution_plain)
next
  case (2 matched str pos c)
  then show ?case by (cases t) (simp_all add: get_substitution_plain)
next
  case (3 matched str pos c d rest)
  then show ?case
    by (cases rest) (auto simp: get_substitution_plain split: list.splits if_splits)
qed

lemma imgTag_no_dollar: "0x24 \<notin> set b \<Longrightarrow> 0x24 \<notin> set (imgTag b)"
  by (simp add: imgTag_def utf16_def)

lemma imgTag_starts: "imgTag b \<noteq> [] \<and> hd (imgTag b) = 0x0A"
  by (simp add: imgTag_def utf16_def)


subsection \<open>The steps of the ladder\<close>

text \<open>
  What each step of the ladder does when the snippet and the fragment hold no \<open>$\<close>: the
  first step puts the fragment after the match, the second after the leftmost occurrence
  of the snippet, the third after the leftmost occurrence of its first 15 code units,
  when there are more than 10 of them; otherwise nothing is assigned.
\<close>

lemma anchor_insert_regex:
  assumes "regex_search upper (js_trim raw) html = Some (i, n)" and "0x24 \<notin> set b"
  shows "anchor_insert upper html raw (imgTag b) =
           Some (take (i + n) html @ imgTag b @ drop (i + n) html)"
proof -
  have "get_substitution (take n (drop i html)) html i [take n (drop i html)]
          ([0x24, 0x31] @ imgTag b) = take n (drop i html) @ imgTag b"
    using imgTag_no_dollar [OF assms(2)] imgTag_starts [of b]
    by (intro get_substitution_group) (simp_all add: is_digit_def)
  then show ?thesis
    using assms(1) by (simp add: anchor_insert_def replace_regex_def Let_def take_add)
qed




lemma anchor_insert_substring_subst:
  assumes "regex_search upper (js_trim raw) html = None"
    and "index_of (js_trim raw) html = Some i"
    and "0x24 \<notin> set tag" and "js_trim raw = [] \<or> last (js_trim raw) \<noteq> 0x24"
  shows "anchor_insert upper html raw tag =
           Some (take i html @ get_substitution (js_trim raw) html i [] (js_trim raw) @ tag
                   @ drop (i + length (js_trim raw)) html)"
  using assms
  by (simp add: anchor_insert_def js_includes_def replace_string_def Let_def
      get_substitution_append_plain)

lemma anchor_insert_prefix_subst:
  assumes "regex_search upper (js_trim raw) html = None"
    and "index_of (js_trim raw) html = None"
    and "10 < length (take 15 (js_trim raw))"
    and "index_of (take 15 (js_trim raw)) html = Some i"
    and "0x24 \<notin> set tag"
    and "take 15 (js_trim raw) = [] \<or> last (take 15 (js_trim raw)) \<noteq> 0x24"
  shows "anchor_insert upper html raw tag =
           Some (take i html
                   @ get_substitution (take 15 (js_trim raw)) html i [] (take 15 (js_trim raw))
                   @ tag @ drop (i + length (take 15 (js_trim raw))) html)"
  using assms
  by (simp add: anchor_insert_def js_includes_def replace_string_def Let_def
      get_substitution_append_plain del: length_take)

lemmas search_eval = paragraph_match_at_def ci_eq_def canonicalize_def js_trim_def
  is_white_space_def utf16_def is_digit_def digit_val_def Let_def

lemma payload_plain: "0x24 \<notin> set (utf16 ''QUJD'')"
  by (simp add: utf16_def)


text \<open>
  Claim C7, as amended. Let the document hold the trimmed snippet followed by text
  without \<open><\<close> and by \<open></p>\<close>, and let the image payload hold no \<open>$\<close> (it is base64 text).
  Then the first step of the ladder fires: the figure fragment is inserted immediately
  after a closing paragraph tag (\<open></p>\<close> or \<open></P>\<close>), the one that ends the leftmost match
  of the expression, which reads the snippet without regard to case and starts at or
  before this occurrence. When the expression matches at no earlier place, the fragment
  comes immediately after the \<open></p>\<close> of the paragraph that holds the snippet.
\<close>

theorem paragraph_anchor_after_closing_tag:
  assumes "updatedHtml = pre @ snippet @ trail @ utf16 ''</p>'' @ post"
    and "0x3C \<notin> set trail"
    and "snippet = js_trim raw"
    and "0x24 \<notin> set base64Image"
  shows "(\<exists>i n. i \<le> length pre \<and> regex_search upper snippet updatedHtml = Some (i, n) \<and>
            4 \<le> n \<and> i + n \<le> length updatedHtml \<and>
            (take 4 (drop (i + n - 4) updatedHtml) = utf16 ''</p>'' \<or>
             take 4 (drop (i + n - 4) updatedHtml) = utf16 ''</P>'') \<and>
            anchor_insert upper updatedHtml raw (imgTag base64Image) =
              Some (take (i + n) updatedHtml @ imgTag base64Image @ drop (i + n) updatedHtml)) \<and>
         ((\<forall>j<length pre. paragraph_match_at upper snippet (drop j updatedHtml) = None) \<longrightarrow>
            anchor_insert upper updatedHtml raw (imgTag base64Image) =
              Some (pre @ snippet @ trail @ utf16 ''</p>'' @ imgTag base64Image @ post))"
proof
  let ?n0 = "length snippet + length trail + 4"
  have here: "paragraph_match_at upper snippet (drop (length pre) updatedHtml) = Some ?n0"
    using assms(1,2) by (intro paragraph_match_intro [where post = post]) simp_all
  have le: "length pre \<le> length updatedHtml"
    using assms(1) by simp
  from regex_search_exists [OF le here] obtain i n where
    i: "i \<le> length pre" and r: "regex_search upper snippet updatedHtml = Some (i, n)"
    by blast
  from regex_search_Some [OF r] have
    m: "paragraph_match_at upper snippet (drop i updatedHtml) = Some n" "i \<le> length updatedHtml"
    by simp_all
  note e = match_ends_with_closing_tag [OF m]
  have "anchor_insert upper updatedHtml raw (imgTag base64Image) =
          Some (take (i + n) updatedHtml @ imgTag base64Image @ drop (i + n) updatedHtml)"
    using r assms(3,4) by (intro anchor_insert_regex) simp_all
  with i r e show "\<exists>i n. i \<le> length pre \<and> regex_search upper snippet updatedHtml = Some (i, n) \<and>
            4 \<le> n \<and> i + n \<le> length updatedHtml \<and>
            (take 4 (drop (i + n - 4) updatedHtml) = utf16 ''</p>'' \<or>
             take 4 (drop (i + n - 4) updatedHtml) = utf16 ''</P>'') \<and>
            anchor_insert upper updatedHtml raw (imgTag base64Image) =
              Some (take (i + n) updatedHtml @ imgTag base64Image @ drop (i + n) updatedHtml)"
    by blast
  show "(\<forall>j<length pre. paragraph_match_at upper snippet (drop j updatedHtml) = None) \<longrightarrow>
            anchor_insert upper updatedHtml raw (imgTag base64Image) =
              Some (pre @ snippet @ trail @ utf16 ''</p>'' @ imgTag base64Image @ post)"
  proof
    assume "\<forall>j<length pre. paragraph_match_at upper snippet (drop j updatedHtml) = None"
    from regex_search_first [OF le here this]
    have "regex_search upper (js_trim raw) updatedHtml = Some (length pre, ?n0)"
      using assms(3) by simp
    from anchor_insert_regex [OF this assms(4)]
    show "anchor_insert upper updatedHtml raw (imgTag base64Image) =
              Some (pre @ snippet @ trail @ utf16 ''</p>'' @ imgTag base64Image @ post)"
      using assms(1) by (simp add: utf16_def)
  qed
qed

theorem paragraph_anchor_after_closing_tag_witness:
  "anchor_insert id (utf16 ''<p>Intro.</p><p>Alpha beta gamma. More text</p><p>Omega</p>'')
     (utf16 '' Alpha beta gamma. '') (imgTag (utf16 ''QUJD''))
   = Some (utf16 ''<p>Intro.</p><p>'' @ utf16 ''Alpha beta gamma.'' @ utf16 '' More text''
           @ utf16 ''</p>'' @ imgTag (utf16 ''QUJD'') @ utf16 ''<p>Omega</p>'')"
proof -
  let ?html = "utf16 ''<p>Intro.</p><p>Alpha beta gamma. More text</p><p>Omega</p>''"
  have r: "regex_search id (utf16 ''Alpha beta gamma.'') ?html = Some (16, 31)"
    by (simp add: search_eval)
  have first: "\<forall>j<length (utf16 ''<p>Intro.</p><p>'').
      paragraph_match_at id (utf16 ''Alpha beta gamma.'') (drop j ?html) = None"
    using regex_search_Some [OF r] by (simp add: utf16_def)
  have dec: "?html = utf16 ''<p>Intro.</p><p>'' @ utf16 ''Alpha beta gamma.'' @ utf16 '' More text''
      @ utf16 ''</p>'' @ utf16 ''<p>Omega</p>''"
    by (simp add: utf16_def)
  have trail: "0x3C \<notin> set (utf16 '' More text'')"
    by (simp add: utf16_def)
  have trim: "utf16 ''Alpha beta gamma.'' = js_trim (utf16 '' Alpha beta gamma. '')"
    by (simp add: utf16_def js_trim_def is_white_space_def)
  from paragraph_anchor_after_closing_tag [OF dec trail trim payload_plain, of id] first
  show ?thesis by blast
qed


text \<open>
  The claim as it was stated fails: the snippet occurs only in the second paragraph, and
  the fragment goes after the first one, whose text differs from the snippet in case.
\<close>

theorem paragraph_anchor_counterexample:
  "anchor_insert id (utf16 ''<p>HELLO world</p><p>hello world again</p>'')
     (utf16 ''hello world'') (imgTag (utf16 ''QUJD''))
   = Some (utf16 ''<p>HELLO world</p>'' @ imgTag (utf16 ''QUJD'')
           @ utf16 ''<p>hello world again</p>'') \<and>
   anchor_insert id (utf16 ''<p>HELLO world</p><p>hello world again</p>'')
     (utf16 ''hello world'') (imgTag (utf16 ''QUJD''))
   \<noteq> Some (utf16 ''<p>HELLO world</p><p>hello world again</p>'' @ imgTag (utf16 ''QUJD''))"
proof -
  let ?html = "utf16 ''<p>HELLO world</p><p>hello world again</p>''"
  have r: "regex_search id (js_trim (utf16 ''hello world'')) ?html = Some (3, 15)"
    by (simp add: search_eval)
  have a: "anchor_insert id ?html (utf16 ''hello world'') (imgTag (utf16 ''QUJD''))
      = Some (utf16 ''<p>HELLO world</p>'' @ imgTag (utf16 ''QUJD'')
           @ utf16 ''<p>hello world again</p>'')"
    unfolding anchor_insert_regex [OF r payload_plain] by (simp add: utf16_def)
  obtain t where t: "imgTag (utf16 ''QUJD'') = 0x0A # t"
    using imgTag_starts [of "utf16 ''QUJD''"] by (cases "imgTag (utf16 ''QUJD'')") auto
  have "utf16 ''<p>HELLO world</p>'' @ imgTag (utf16 ''QUJD'') @ utf16 ''<p>hello world again</p>''
      \<noteq> utf16 ''<p>HELLO world</p><p>hello world again</p>'' @ imgTag (utf16 ''QUJD'')"
    unfolding t by (simp add: utf16_def)
  with a show ?thesis by simp
qed


text \<open>
  Claim C9. The second step is meant to leave the document as it is and to put one copy
  of the fragment after the leftmost occurrence of the snippet. The replacement is a
  template, though, and the snippet is part of it: with the snippet
  \<open>the US$'s value fell.\<close> the \<open>$'\<close> in it expands to the rest of the document, so the
  first occurrence is torn apart and the fragment does not follow it.
\<close>

theorem substring_step_template:
  "anchor_insert id (utf16 ''<div>Today the US$'s value fell. Later the US$'s value fell.</div>'')
     (utf16 ''the US$'s value fell.'') (imgTag (utf16 ''QUJD''))
   = Some (utf16 ''<div>Today the US Later the US$'s value fell.</div>s value fell.''
           @ imgTag (utf16 ''QUJD'') @ utf16 '' Later the US$'s value fell.</div>'') \<and>
   anchor_insert id (utf16 ''<div>Today the US$'s value fell. Later the US$'s value fell.</div>'')
     (utf16 ''the US$'s value fell.'') (imgTag (utf16 ''QUJD''))
   \<noteq> Some (utf16 ''<div>Today the US$'s value fell.'' @ imgTag (utf16 ''QUJD'')
             @ utf16 '' Later the US$'s value fell.</div>'')"
proof -
  let ?html = "utf16 ''<div>Today the US$'s value fell. Later the US$'s value fell.</div>''"
  let ?snippet = "utf16 ''the US$'s value fell.''"
  have t: "js_trim ?snippet = ?snippet"
    by (simp add: search_eval)
  have r: "regex_search id ?snippet ?html = None"
    by (simp add: search_eval)
  have i: "index_of ?snippet ?html = Some 11"
    by (simp add: utf16_def)
  have l: "?snippet = [] \<or> last ?snippet \<noteq> 0x24"
    by (simp add: utf16_def)
  have "anchor_insert id ?html ?snippet (imgTag (utf16 ''QUJD'')) =
      Some (take 11 ?html @ get_substitution ?snippet ?html 11 [] ?snippet
        @ imgTag (utf16 ''QUJD'') @ drop (11 + length ?snippet) ?html)"
    using anchor_insert_substring_subst [of id ?snippet ?html 11 "imgTag (utf16 ''QUJD'')"]
      r i l imgTag_no_dollar [OF payload_plain]
    unfolding t by blast
  then have "anchor_insert id ?html ?snippet (imgTag (utf16 ''QUJD'')) =
      Some (utf16 ''<div>Today the US Later the US$'s value fell.</div>s value fell.''
           @ imgTag (utf16 ''QUJD'') @ utf16 '' Later the US$'s value fell.</div>'')"
    by (simp add: utf16_def is_digit_def)
  then show ?thesis
    by (simp add: utf16_def)
qed

text \<open>
  Claim C6. The third step is meant to put the fragment immediately after the first 15
  code units of the snippet. The same template expansion applies to these 15 code
  units: with \<open>the US$'s value\<close> the rest of the document is copied into the middle of
  them, and the fragment does not follow the prefix.
\<close>

theorem prefix_step_template:
  "anchor_insert id (utf16 ''<div>Today the US$'s value fell.</div>'')
     (utf16 ''the US$'s value rose sharply'') (imgTag (utf16 ''QUJD''))
   = Some (utf16 ''<div>Today the US fell.</div>s value'' @ imgTag (utf16 ''QUJD'')
           @ utf16 '' fell.</div>'') \<and>
   anchor_insert id (utf16 ''<div>Today the US$'s value fell.</div>'')
     (utf16 ''the US$'s value rose sharply'') (imgTag (utf16 ''QUJD''))
   \<noteq> Some (utf16 ''<div>Today the US$'s value'' @ imgTag (utf16 ''QUJD'')
             @ utf16 '' fell.</div>'')"
proof -
  let ?html = "utf16 ''<div>Today the US$'s value fell.</div>''"
  let ?snippet = "utf16 ''the US$'s value rose sharply''"
  let ?short = "utf16 ''the US$'s value''"
  have t: "js_trim ?snippet = ?snippet"
    by (simp add: search_eval)
  have s: "take 15 ?snippet = ?short"
    by (simp add: utf16_def)
  have r: "regex_search id ?snippet ?html = None"
    by (simp add: search_eval)
  have n: "index_of ?snippet ?html = None"
    by (simp add: utf16_def)
  have i: "index_of ?short ?html = Some 11"
    by (simp add: utf16_def)
  have l: "?short = [] \<or> last ?short \<noteq> 0x24"
    by (simp add: utf16_def)
  have g: "10 < length ?short"
    by (simp add: utf16_def)
  have "anchor_insert id ?html ?snippet (imgTag (utf16 ''QUJD'')) =
      Some (take 11 ?html @ get_substitution ?short ?html 11 [] ?short
        @ imgTag (utf16 ''QUJD'') @ drop (11 + length ?short) ?html)"
    using anchor_insert_prefix_subst [of id ?snippet ?html 11 "imgTag (utf16 ''QUJD'')"]
      r n i l g imgTag_no_dollar [OF payload_plain]
    unfolding t s by blast
  then have "anchor_insert id ?html ?snippet (imgTag (utf16 ''QUJD'')) =
      Some (utf16 ''<div>Today the US fell.</div>s value'' @ imgTag (utf16 ''QUJD'')
           @ utf16 '' fell.</div>'')"
    by (simp add: utf16_def is_digit_def)
  then show ?thesis
    by (simp add: utf16_def)
qed

section \<open>Properties of the IllustrationPlanner\<close>


lemma length_image_calls [simp]: "length (image_calls imageGen plans) = length plans"
  by (simp add: image_calls_def)

text \<open>
  Claim C1, as amended. The call raises AnalysisIncomplete exactly when the planning
  response holds no plan (an empty list, or a falsy value). When it holds at least one
  plan, also fewer than were asked for, the call returns the document that the loop
  makes from these plans.
\<close>

theorem analysis_incomplete_iff_no_plans:
  "(addIllustrationsToArticle upper planner imageGen articleHtml imageCount = Inl AnalysisIncomplete
      \<longleftrightarrow> planner articleHtml imageCount = PlanningReturns None \<or>
          planner articleHtml imageCount = PlanningReturns (Some [])) \<and>
   (\<forall>plans. planner articleHtml imageCount = PlanningReturns (Some plans) \<and> plans \<noteq> [] \<longrightarrow>
      addIllustrationsToArticle upper planner imageGen articleHtml imageCount =
        Inr (illustrate_plans upper articleHtml (image_calls imageGen plans)))"
proof (cases "planner articleHtml imageCount")
  case PlanningFails
  then show ?thesis
    by (simp add: addIllustrationsToArticle_def)
next
  case (PlanningReturns response)
  show ?thesis
  proof (cases response)
    case None
    with PlanningReturns show ?thesis
      by (simp add: addIllustrationsToArticle_def)
  next
    case (Some plans)
    with PlanningReturns show ?thesis
      by (cases "plans = []") (simp_all add: addIllustrationsToArticle_def)
  qed
qed

theorem analysis_incomplete_iff_no_plans_witness:
  "addIllustrationsToArticle id (\<lambda>html n. PlanningReturns (Some []))
     (\<lambda>i. ImageFails) (utf16 ''<p>Hi</p>'') 3 = Inl AnalysisIncomplete \<and>
   addIllustrationsToArticle id
     (\<lambda>html n. PlanningReturns
        (Some [\<lparr>isCover = True, contextSnippet = None, imagePrompt = utf16 ''a lighthouse''\<rparr>]))
     (\<lambda>i. ImageFails) (utf16 ''<p>Hi</p>'') 3
   = Inr (illustrate_plans id (utf16 ''<p>Hi</p>'')
       (image_calls (\<lambda>i. ImageFails)
          [\<lparr>isCover = True, contextSnippet = None, imagePrompt = utf16 ''a lighthouse''\<rparr>]))"
  using analysis_incomplete_iff_no_plans [of id "\<lambda>html n. PlanningReturns (Some [])"
      "\<lambda>i. ImageFails" "utf16 ''<p>Hi</p>''" 3]
    analysis_incomplete_iff_no_plans [of id "\<lambda>html n. PlanningReturns
        (Some [\<lparr>isCover = True, contextSnippet = None, imagePrompt = utf16 ''a lighthouse''\<rparr>])"
      "\<lambda>i. ImageFails" "utf16 ''<p>Hi</p>''" 3]
  by simp


text \<open>
  The claim as it was stated fails: three images are asked for, the planning response
  holds one plan, and the call returns the document with the cover.
\<close>

theorem partial_plan_list_counterexample:
  "length [\<lparr>isCover = True, contextSnippet = None, imagePrompt = utf16 ''a lighthouse''\<rparr>] < 3 \<and>
   addIllustrationsToArticle id
     (\<lambda>html n. PlanningReturns
        (Some [\<lparr>isCover = True, contextSnippet = None, imagePrompt = utf16 ''a lighthouse''\<rparr>]))
     (\<lambda>i. ImageReturns [Some (utf16 ''QUJD'')]) (utf16 ''<p>Hi</p>'') 3
   = Inr (imgTag (utf16 ''QUJD'') @ utf16 ''<p>Hi</p>'')"
  by (simp add: addIllustrationsToArticle_def image_calls_def place_image_def
      first_inline_data_def truthy_def utf16_def)


subsection \<open>A failed image call\<close>
















section \<open>Properties of the NarrationPipeline\<close>






lemma generateSpeech_never_raises: "generateSpeech atob tts order text \<noteq> Some (Inl e)"
  by (simp add: generateSpeech_def Let_def split: option.splits)





section \<open>Properties of the WeChatFormatter\<close>

lemma set_property_wrapper_style:
  "set_property ''box-sizing'' ''border-box'' wrapper_style = wrapper_style"
  by (simp add: wrapper_style_def)

lemma walk_wrapper:
  "walk (Element ''section'' wrapper_style wrapper_attrs kids)
     = Element ''section'' wrapper_style wrapper_attrs (map walk kids)"
  by (simp add: processNode_def tag_style_def set_property_wrapper_style)

lemma node_count_walk: "node_count (walk n) = node_count n"
proof (induction n)
  case (TextNode t)
  show ?case by simp
next
  case (Element tagName style attrs kids)
  then have "sum_list (map node_count (map walk kids)) = sum_list (map node_count kids)"
    by (induction kids) simp_all
  then show ?case
    by (simp add: Let_def case_prod_beta)
qed

lemma set_property_sets:
  "(p, v, False) \<in> set (set_property p v ds)"
  by (induction ds) auto

lemma set_property_keeps:
  "(q, w, imp) \<in> set ds \<Longrightarrow> q \<noteq> p \<Longrightarrow> (q, w, imp) \<in> set (set_property p v ds)"
  by (induction ds) auto


text \<open>
  After \<open>processNode\<close> the style of an element holds the box-sizing reset exactly when
  its tag is none of \<open>strong\<close>, \<open>b\<close>, \<open>em\<close>, \<open>u\<close>, \<open>ul\<close>, \<open>ol\<close>, \<open>li\<close>: the text assigned
  to \<open>cssText\<close> for these tags replaces the style that held the reset.
\<close>

lemma processNode_box_sizing:
  "(''box-sizing'', ''border-box'', False) \<in> set (fst (processNode tagName style attrs)) \<longleftrightarrow>
     tagName \<notin> {''strong'', ''b'', ''em'', ''u'', ''ul'', ''ol'', ''li''}"
  by (auto simp: processNode_def tag_style_def set_property_sets h2_style_def h3_style_def
      p_style_def img_style_def strong_style_def em_style_def u_style_def list_style_def
      li_style_def)


text \<open>
  Claim C2. Every element of the output should carry \<open>box-sizing: border-box\<close> beside
  the style of its tag. For \<open><p>a <strong>b</strong></p>\<close> the \<open>strong\<close> element of the
  output has the two declarations of its rule only.
\<close>

theorem emphasis_loses_box_sizing:
  "format_body [Element ''p'' [] [] [TextNode (utf16 ''a ''),
       Element ''strong'' [] [] [TextNode (utf16 ''b'')]]]
   = [Element ''section'' wrapper_style wrapper_attrs
       [Element ''p'' p_style []
          [TextNode (utf16 ''a ''), Element ''strong'' strong_style [] [TextNode (utf16 ''b'')]]]] \<and>
   strong_style = [(''font-weight'', ''700'', False), (''color'', ''#333333'', False)]"
  unfolding format_body_def walk_wrapper
  by (simp add: processNode_def tag_style_def strong_style_def)


lemma node_count_figure_to_p: "node_count (figure_to_p n) = node_count n"
proof (induction n)
  case (TextNode t)
  show ?case by simp
next
  case (Element tagName style attrs kids)
  then have "sum_list (map node_count (map figure_to_p kids)) = sum_list (map node_count kids)"
    by (induction kids) simp_all
  then show ?case
    by simp
qed

lemma format_body_wrapper:
  "format_body body = [Element ''section'' wrapper_style wrapper_attrs (map walk body)]"
  by (simp only: format_body_def walk_wrapper)

lemma count_format_body:
  "sum_list (map node_count (map figure_to_p (format_body body)))
     = Suc (sum_list (map node_count body))"
  by (simp add: format_body_wrapper comp_def node_count_walk node_count_figure_to_p)

lemma replace_all_skip:
  "c \<notin> set xs \<Longrightarrow> replace_all (c # pat) rep (xs @ ys) = xs @ replace_all (c # pat) rep ys"
  by (induction xs) auto

text \<open>
  Claim C10. Every call of \<open>formatHtmlForWeChat\<close> serializes one new top-level
  \<open>section\<close>, with the base style and the marker \<open>data-tool="AIWriter"\<close>, around all
  that it has parsed, whatever the input. A \<open>section\<close> in the input (the wrapper of an
  earlier call, with whatever style and attributes the parser read) becomes the only
  child of the new one. When the browser reads the result of a call back as the tree
  that was written, with \<open>p\<close> for \<open>figure\<close>, the second call serializes a wrapper inside a
  wrapper, and its result is not the result of the first call.
\<close>

theorem second_call_nests_first_wrapper:
  assumes "parse (formatHtmlForWeChat parse serialize html)
             = map figure_to_p (format_body (parse html))"
    and "parse (formatHtmlForWeChat parse serialize (formatHtmlForWeChat parse serialize html))
             = map figure_to_p (format_body (parse (formatHtmlForWeChat parse serialize html)))"
  shows "wrapper_attrs = [(''data-tool'', ''AIWriter'')] \<and>
    wrapper_style =
      [(''font-family'', ''-apple-system, BlinkMacSystemFont, 'Helvetica Neue', 'PingFang SC', 'Hiragino Sans GB', 'Microsoft YaHei UI', 'Microsoft YaHei', Arial, sans-serif'', False),
       (''font-size'', ''16px'', False), (''line-height'', ''1.75'', False),
       (''color'', ''#333333'', False), (''letter-spacing'', ''0.034em'', False),
       (''text-align'', ''justify'', False), (''word-break'', ''break-all'', False),
       (''box-sizing'', ''border-box'', False), (''margin'', ''0'', False),
       (''padding'', ''10px'', False)] \<and>
    formatHtmlForWeChat parse serialize html =
      replace_all (utf16 ''</figure>'') (utf16 ''</p>'')
        (replace_all (utf16 ''<figure'') (utf16 ''<p'')
           (serialize [Element ''section'' wrapper_style wrapper_attrs (map walk (parse html))])) \<and>
    format_body [Element ''section'' style attrs kids] =
      [Element ''section'' wrapper_style wrapper_attrs
         [Element ''section'' (set_property ''box-sizing'' ''border-box'' style) attrs
            (map walk kids)]] \<and>
    formatHtmlForWeChat parse serialize (formatHtmlForWeChat parse serialize html) =
      replace_all (utf16 ''</figure>'') (utf16 ''</p>'')
        (replace_all (utf16 ''<figure'') (utf16 ''<p'')
           (serialize [Element ''section'' wrapper_style wrapper_attrs
              [Element ''section'' wrapper_style wrapper_attrs
                 (map walk (map figure_to_p (map walk (parse html))))]])) \<and>
    formatHtmlForWeChat parse serialize (formatHtmlForWeChat parse serialize html)
      \<noteq> formatHtmlForWeChat parse serialize html"
proof -
  let ?once = "formatHtmlForWeChat parse serialize html"
  let ?twice = "formatHtmlForWeChat parse serialize ?once"
  have first: "?once =
      replace_all (utf16 ''</figure>'') (utf16 ''</p>'')
        (replace_all (utf16 ''<figure'') (utf16 ''<p'')
           (serialize [Element ''section'' wrapper_style wrapper_attrs (map walk (parse html))]))"
    by (simp only: formatHtmlForWeChat_def format_body_wrapper)
  have "format_body (parse ?once) =
      [Element ''section'' wrapper_style wrapper_attrs
         [Element ''section'' wrapper_style wrapper_attrs
            (map walk (map figure_to_p (map walk (parse html))))]]"
    unfolding assms(1) format_body_wrapper
    by (simp add: processNode_def tag_style_def set_property_wrapper_style)
  then have second: "?twice =
      replace_all (utf16 ''</figure>'') (utf16 ''</p>'')
        (replace_all (utf16 ''<figure'') (utf16 ''<p'')
           (serialize [Element ''section'' wrapper_style wrapper_attrs
              [Element ''section'' wrapper_style wrapper_attrs
                 (map walk (map figure_to_p (map walk (parse html))))]]))"
    by (simp only: formatHtmlForWeChat_def [of parse serialize ?once])
  have "sum_list (map node_count (parse ?twice)) = Suc (sum_list (map node_count (parse ?once)))"
    unfolding assms(2) by (rule count_format_body)
  then have differ: "?twice \<noteq> ?once"
    by auto
  have nested: "format_body [Element ''section'' style attrs kids] =
      [Element ''section'' wrapper_style wrapper_attrs
         [Element ''section'' (set_property ''box-sizing'' ''border-box'' style) attrs
            (map walk kids)]]"
    unfolding format_body_wrapper by (simp add: processNode_def tag_style_def)
  have pins: "wrapper_attrs = [(''data-tool'', ''AIWriter'')]"
    "wrapper_style =
      [(''font-family'', ''-apple-system, BlinkMacSystemFont, 'Helvetica Neue', 'PingFang SC', 'Hiragino Sans GB', 'Microsoft YaHei UI', 'Microsoft YaHei', Arial, sans-serif'', False),
       (''font-size'', ''16px'', False), (''line-height'', ''1.75'', False),
       (''color'', ''#333333'', False), (''letter-spacing'', ''0.034em'', False),
       (''text-align'', ''justify'', False), (''word-break'', ''break-all'', False),
       (''box-sizing'', ''border-box'', False), (''margin'', ''0'', False),
       (''padding'', ''10px'', False)]"
    by (simp_all only: wrapper_attrs_def wrapper_style_def)
  from pins first nested second differ show ?thesis
    by (intro conjI)
qed

text \<open>
  A browser that knows three documents: the article \<open><figure><img src="a.png"></figure>\<close>,
  the result of the first call and the result of the second.
\<close>

theorem second_call_nests_first_wrapper_witness:
  "let html = utf16 ''<figure><img src=\"a.png\"></figure>'';
       base = utf16 (''font-family: -apple-system, BlinkMacSystemFont, 'Helvetica Neue', 'PingFang ''
           @ ''SC', 'Hiragino Sans GB', 'Microsoft YaHei UI', 'Microsoft YaHei', Arial, ''
           @ ''sans-serif; font-size: 16px; line-height: 1.75; color: #333333; letter-spacing: ''
           @ ''0.034em; text-align: justify; word-break: break-all; box-sizing: border-box; ''
           @ ''margin: 0; padding: 10px;'');
       fig = utf16 (''margin: 20px 0; padding: 0; text-align: center; display: block; width: ''
           @ ''100%; box-sizing: border-box;'');
       para = utf16 (''margin: 0 0 24px 0; font-size: 16px; line-height: 1.8; color: #333333; ''
           @ ''text-align: justify; box-sizing: border-box;'');
       pic = utf16 (''display: block; margin: 0 auto; max-width: 100% !important; height: auto ''
           @ ''!important; border-radius: 6px; box-sizing: border-box; box-shadow: 0 ''
           @ ''4px 12px rgba(0,0,0,0.08); visibility: visible !important; opacity: 1 ''
           @ ''!important;'');
       markup = utf16 ''<section style=\"'' @ base @ utf16 ''\" data-tool=\"AIWriter\"><figure style=\"''
         @ fig @ utf16 ''\"><img src=\"a.png\" style=\"'' @ pic @ utf16 ''\"></figure></section>'';
       once = utf16 ''<section style=\"'' @ base @ utf16 ''\" data-tool=\"AIWriter\"><p style=\"''
         @ fig @ utf16 ''\"><img src=\"a.png\" style=\"'' @ pic @ utf16 ''\"></p></section>'';
       twice = utf16 ''<section style=\"'' @ base
         @ utf16 ''\" data-tool=\"AIWriter\"><section style=\"'' @ base
         @ utf16 ''\" data-tool=\"AIWriter\"><p style=\"'' @ para
         @ utf16 ''\"><img src=\"a.png\" style=\"'' @ pic @ utf16 ''\"></p></section></section>'';
       image = Element ''img'' img_style [(''src'', ''a.png'')] [];
       parse = (\<lambda>s.
         if s = html then [Element ''figure'' [] [] [Element ''img'' [] [(''src'', ''a.png'')] []]]
         else if s = once then
           [Element ''section'' wrapper_style wrapper_attrs [Element ''p'' figure_style [] [image]]]
         else if s = twice then
           [Element ''section'' wrapper_style wrapper_attrs
              [Element ''section'' wrapper_style wrapper_attrs [Element ''p'' p_style [] [image]]]]
         else []);
       serialize = (\<lambda>d.
         if d = [Element ''section'' wrapper_style wrapper_attrs
                   [Element ''figure'' figure_style [] [image]]] then markup
         else if d = [Element ''section'' wrapper_style wrapper_attrs
                   [Element ''section'' wrapper_style wrapper_attrs
                      [Element ''p'' p_style [] [image]]]] then twice
         else [])
   in formatHtmlForWeChat parse serialize html = once \<and>
      parse once = map figure_to_p (format_body (parse html)) \<and>
      formatHtmlForWeChat parse serialize once = twice \<and>
      parse twice = map figure_to_p (format_body (parse once)) \<and>
      twice \<noteq> once"
proof -
  define html where "html = utf16 ''<figure><img src=\"a.png\"></figure>''"
  define base where "base = utf16 (''font-family: -apple-system, BlinkMacSystemFont, 'Helvetica Neue', 'PingFang ''
           @ ''SC', 'Hiragino Sans GB', 'Microsoft YaHei UI', 'Microsoft YaHei', Arial, ''
           @ ''sans-serif; font-size: 16px; line-height: 1.75; color: #333333; letter-spacing: ''
           @ ''0.034em; text-align: justify; word-break: break-all; box-sizing: border-box; ''
           @ ''margin: 0; padding: 10px;'')"
  define fig where "fig = utf16 (''margin: 20px 0; padding: 0; text-align: center; display: block; width: ''
           @ ''100%; box-sizing: border-box;'')"
  define para where "para = utf16 (''margin: 0 0 24px 0; font-size: 16px; line-height: 1.8; color: #333333; ''
           @ ''text-align: justify; box-sizing: border-box;'')"
  define pic where "pic = utf16 (''display: block; margin: 0 auto; max-width: 100% !important; height: auto ''
           @ ''!important; border-radius: 6px; box-sizing: border-box; box-shadow: 0 ''
           @ ''4px 12px rgba(0,0,0,0.08); visibility: visible !important; opacity: 1 ''
           @ ''!important;'')"
  define markup where "markup = utf16 ''<section style=\"'' @ base @ utf16 ''\" data-tool=\"AIWriter\"><figure style=\"''
         @ fig @ utf16 ''\"><img src=\"a.png\" style=\"'' @ pic @ utf16 ''\"></figure></section>''"
  define once where "once = utf16 ''<section style=\"'' @ base @ utf16 ''\" data-tool=\"AIWriter\"><p style=\"''
         @ fig @ utf16 ''\"><img src=\"a.png\" style=\"'' @ pic @ utf16 ''\"></p></section>''"
  define twice where "twice = utf16 ''<section style=\"'' @ base
         @ utf16 ''\" data-tool=\"AIWriter\"><section style=\"'' @ base
         @ utf16 ''\" data-tool=\"AIWriter\"><p style=\"'' @ para
         @ utf16 ''\"><img src=\"a.png\" style=\"'' @ pic @ utf16 ''\"></p></section></section>''"
  define image where "image = Element ''img'' img_style [(''src'', ''a.png'')] []"
  define d0 where "d0 = [Element ''figure'' [] [] [Element ''img'' [] [(''src'', ''a.png'')] []]]"
  define d1 where "d1 = [Element ''section'' wrapper_style wrapper_attrs
      [Element ''figure'' figure_style [] [image]]]"
  define r1 where "r1 = [Element ''section'' wrapper_style wrapper_attrs
      [Element ''p'' figure_style [] [image]]]"
  define d2 where "d2 = [Element ''section'' wrapper_style wrapper_attrs
      [Element ''section'' wrapper_style wrapper_attrs [Element ''p'' p_style [] [image]]]]"
  define parse where "parse = (\<lambda>s. if s = html then d0 else if s = once then r1
      else if s = twice then d2 else [])"
  define serialize where "serialize = (\<lambda>d. if d = d1 then markup else if d = d2 then twice
      else [])"
  have plain: "0x3C \<notin> set base" "0x3C \<notin> set fig" "0x3C \<notin> set para" "0x3C \<notin> set pic"
    by (simp_all add: base_def fig_def para_def pic_def utf16_def)
  have strings: "html \<noteq> once" "html \<noteq> twice" "once \<noteq> twice"
    by (simp_all add: html_def once_def twice_def utf16_def)
  have trees: "d1 \<noteq> d2"
    by (simp add: d1_def d2_def)
  have f0: "format_body d0 = d1"
    unfolding format_body_def walk_wrapper d0_def d1_def image_def
    by (simp add: processNode_def tag_style_def)
  have f1: "format_body r1 = d2"
    unfolding format_body_def walk_wrapper r1_def d2_def image_def
    by (simp add: processNode_def tag_style_def set_property_wrapper_style img_style_def)
  have swap1: "replace_all (utf16 ''</figure>'') (utf16 ''</p>'')
      (replace_all (utf16 ''<figure'') (utf16 ''<p'') markup) = once"
    using plain by (simp add: markup_def once_def utf16_def replace_all_skip)
  have swap2: "replace_all (utf16 ''</figure>'') (utf16 ''</p>'')
      (replace_all (utf16 ''<figure'') (utf16 ''<p'') twice) = twice"
    using plain by (simp add: twice_def utf16_def replace_all_skip)
  have e1: "formatHtmlForWeChat parse serialize html = once"
    by (simp add: formatHtmlForWeChat_def parse_def serialize_def f0 swap1)
  have e2: "formatHtmlForWeChat parse serialize once = twice"
    using strings trees
    by (simp add: formatHtmlForWeChat_def parse_def serialize_def f1 swap2)
  have p1: "parse once = map figure_to_p (format_body (parse html))"
    using strings by (simp add: parse_def f0) (simp add: d1_def r1_def image_def)
  have p2: "parse twice = map figure_to_p (format_body (parse once))"
    using strings by (simp add: parse_def f1) (simp add: d2_def image_def)
  have h1: "parse (formatHtmlForWeChat parse serialize html)
      = map figure_to_p (format_body (parse html))"
    unfolding e1 by (rule p1)
  have h2: "parse (formatHtmlForWeChat parse serialize (formatHtmlForWeChat parse serialize html))
      = map figure_to_p (format_body (parse (formatHtmlForWeChat parse serialize html)))"
    unfolding e1 e2 by (rule p2)
  have "formatHtmlForWeChat parse serialize (formatHtmlForWeChat parse serialize html)
      \<noteq> formatHtmlForWeChat parse serialize html"
    using second_call_nests_first_wrapper [OF h1 h2, where style = "[]" and attrs = "[]"
        and kids = "[]"]
    by (elim conjE)
  then have "twice \<noteq> once"
    unfolding e1 e2 .
  with e1 e2 p1 p2 show ?thesis
    unfolding html_def base_def fig_def para_def pic_def markup_def once_def twice_def
      image_def d0_def d1_def r1_def d2_def parse_def serialize_def Let_def
    by (intro conjI)
qed

end
